theory Spec2Isabelle
  imports Main "HOL-Library.AList" "HOL-Library.Multiset"
begin

section \<open>Server configuration, version 15 (cmd/config-v15.go)\<close>

text \<open>
  The file holds the configuration snapshot \<open>serverConfigV15\<close> with its accessors, the
  entry points \<open>loadConfig\<close> and \<open>validateConfig\<close>, and the scanner \<open>checkDupJSONKeys\<close>
  that looks for a key written twice in one JSON object.

  A Go \<open>error\<close> is kept as its message, \<open>nil\<close> as \<open>None\<close>.
\<close>

type_synonym error = string

subsection \<open>JSON documents and the gjson results the scanner walks\<close>

text \<open>
  A well-formed JSON document, as the text of a configuration file spells it. An object
  keeps its members in document order, keys written twice included: that is the evidence
  the scanner looks for. A number is kept as its literal.
\<close>

datatype json =
    JNull
  | JFalse
  | JTrue
  | JNumber string
  | JString string
  | JArray "json list"
  | JObject "(string \<times> json) list"

text \<open>
  Modelled from the spec: \<open>gjson\<close> (github.com/tidwall/gjson) is a library outside src/.
  The spec describes it as a generic tree walker that visits every child key/value pair of
  an object in document order, and says that array elements are unnamed. The library's own
  contract for \<open>ForEach\<close> says the same: for an object the iterator gets the key and the value
  of each member, for an array only the value of each element (the key is the zero
  \<open>Result\<close>, whose \<open>Type\<close> is \<open>Null\<close>), for any other existing value one call with the zero
  key and the value itself, and for a value that does not exist no call at all.

  \<open>Type\<close> is gjson's kind of a value; \<open>False_t\<close>, \<open>True_t\<close> and \<open>String_t\<close> are gjson's
  \<open>False\<close>, \<open>True\<close> and \<open>String\<close>. \<open>Raw\<close> is the raw text of the value in gjson; here it is
  the value that text spells, \<open>None\<close> for the empty text.
\<close>

datatype Type = Null | False_t | Number | String_t | True_t | JSON

record Result =
  Type :: Type
  Raw :: "json option"
  Str :: string

definition Result_zero :: Result where
  "Result_zero = \<lparr>Type = Null, Raw = None, Str = []\<rparr>"

fun Parse :: "json \<Rightarrow> Result" where
  "Parse JNull = \<lparr>Type = Null, Raw = Some JNull, Str = []\<rparr>"
| "Parse JFalse = \<lparr>Type = False_t, Raw = Some JFalse, Str = []\<rparr>"
| "Parse JTrue = \<lparr>Type = True_t, Raw = Some JTrue, Str = []\<rparr>"
| "Parse (JNumber n) = \<lparr>Type = Number, Raw = Some (JNumber n), Str = []\<rparr>"
| "Parse (JString s) = \<lparr>Type = String_t, Raw = Some (JString s), Str = s\<rparr>"
| "Parse (JArray vs) = \<lparr>Type = JSON, Raw = Some (JArray vs), Str = []\<rparr>"
| "Parse (JObject kvs) = \<lparr>Type = JSON, Raw = Some (JObject kvs), Str = []\<rparr>"

definition Exists :: "Result \<Rightarrow> bool" where
  "Exists t \<longleftrightarrow> Type t \<noteq> Null \<or> Raw t \<noteq> None"

text \<open>
  \<open>Result.String()\<close>. The scanner only asks for the string of a key that is not of type
  \<open>Null\<close>: the root key and the keys of object members, all of type \<open>String_t\<close>, whose
  string is \<open>Str\<close>. For a number gjson prints the parsed value and for a container it
  returns the raw text; here the number gives its literal and the container its \<open>Str\<close>.
\<close>

definition Result_String :: "Result \<Rightarrow> string" where
  "Result_String t =
     (case Type t of
        Null \<Rightarrow> []
      | False_t \<Rightarrow> ''false''
      | True_t \<Rightarrow> ''true''
      | String_t \<Rightarrow> Str t
      | Number \<Rightarrow> (case Raw t of Some (JNumber n) \<Rightarrow> n | _ \<Rightarrow> [])
      | JSON \<Rightarrow> Str t)"

text \<open>The key that \<open>ForEach\<close> hands over for an object member named \<open>k\<close>.\<close>

definition keyResult :: "string \<Rightarrow> Result" where
  "keyResult k = \<lparr>Type = String_t, Raw = Some (JString k), Str = k\<rparr>"

text \<open>
  \<open>ForEach\<close> as the list of the (key, value) pairs it passes to the iterator, in order; the
  iterator's answer (go on or stop) is the business of the loop that consumes the list.
\<close>

definition ForEach :: "Result \<Rightarrow> (Result \<times> Result) list" where
  "ForEach t =
     (if \<not> Exists t then []
      else if Type t \<noteq> JSON then [(Result_zero, t)]
      else (case Raw t of
              Some (JObject kvs) \<Rightarrow> map (\<lambda>(k, v). (keyResult k, Parse v)) kvs
            | Some (JArray vs) \<Rightarrow> map (\<lambda>v. (Result_zero, Parse v)) vs
            | _ \<Rightarrow> []))"

subsection \<open>The duplicate-key scanner\<close>

text \<open>
  \<open>keysOcc\<close> is a Go \<open>map[string]int\<close>: an association list with one entry per key.
  \<open>keysOcc[k]++\<close> is \<open>incr\<close>: a missing key reads as 0. The counter is an \<open>int\<close> of 64 bits
  in Go; it counts members of one object of a document held in memory, far below
  \<open>2 ^ 63\<close>, so it is an unbounded \<open>int\<close> here.

  Go leaves the order in which \<open>range\<close> visits a map unspecified. The order is the
  parameter \<open>ord\<close> of the scanner; \<open>range_order ord\<close> says that \<open>ord\<close> visits every entry of
  the map once.
\<close>

type_synonym keysOcc = "(string \<times> int) list"

type_synonym range_order = "keysOcc \<Rightarrow> keysOcc"

definition range_order :: "range_order \<Rightarrow> bool" where
  "range_order ord \<longleftrightarrow> (\<forall>m. mset (ord m) = mset m)"

definition incr :: "string \<Rightarrow> keysOcc \<Rightarrow> keysOcc" where
  "incr k m = AList.update k (case map_of m k of None \<Rightarrow> 1 | Some c \<Rightarrow> c + 1) m"

text \<open>
  The last loop of \<open>doCheckDupJSONKeys\<close>, \<open>for k, v := range keysOcc\<close>, over the entries in
  the order they are visited: the first count above 1 is reported.
\<close>

fun rangeDuplicated :: "string \<Rightarrow> keysOcc \<Rightarrow> error option" where
  "rangeDuplicated key [] = None"
| "rangeDuplicated key ((k, v) # rest) =
     (if v > 1 then Some (key @ '' => `'' @ k @ ''` entry is duplicated'')
      else rangeDuplicated key rest)"

text \<open>The measure of the recursion: the size of the value under a named key.\<close>

definition rsize :: "Result \<Rightarrow> nat" where
  "rsize t = (case Raw t of None \<Rightarrow> 0 | Some j \<Rightarrow> size j)"

fun pairs_weight :: "(Result \<times> Result) list \<Rightarrow> nat" where
  "pairs_weight [] = 0"
| "pairs_weight ((k, v) # rest) =
     (if Type k \<noteq> Null then 2 * rsize v + 3 else 1) + pairs_weight rest"

lemma rsize_Parse: "rsize (Parse j) = size j"
  by (cases j) (simp_all add: rsize_def)

lemma pairs_weight_object:
  "pairs_weight (map (\<lambda>(k, v). (keyResult k, Parse v)) kvs)
     \<le> 2 * size_list (size_prod (\<lambda>x. 0) size) kvs"
  by (induction kvs) (auto simp: keyResult_def rsize_Parse)

lemma pairs_weight_array:
  "pairs_weight (map (\<lambda>v. (Result_zero, Parse v)) vs) = length vs"
  by (induction vs) (auto simp: Result_zero_def)

lemma length_le_size_list: "length xs \<le> size_list f xs"
  by (induction xs) auto

lemma pairs_weight_ForEach: "pairs_weight (ForEach t) < 2 * rsize t + 2"
proof (cases "Exists t \<and> Type t = JSON")
  case False
  then show ?thesis by (auto simp: ForEach_def Result_zero_def)
next
  case True
  show ?thesis
  proof (cases "Raw t")
    case None
    with True show ?thesis by (simp add: ForEach_def)
  next
    case (Some j)
    show ?thesis
    proof (cases j)
      case (JArray vs)
      with Some True length_le_size_list[of vs size] show ?thesis
        by (simp add: ForEach_def pairs_weight_array rsize_def)
    next
      case (JObject kvs)
      with Some True pairs_weight_object[of kvs] show ?thesis
        by (simp add: ForEach_def rsize_def)
    qed (use Some True in \<open>simp_all add: ForEach_def\<close>)
  qed
qed

text \<open>
  \<open>doCheckDupJSONKeys\<close> and the body of its \<open>value.ForEach\<close> loop. The loop carries
  \<open>keysOcc\<close> and stops at the first child that reports an error (the iterator returns
  \<open>checkErr == nil\<close>); \<open>forEachLoop\<close> returns \<open>keysOcc\<close> and \<open>checkErr\<close> as they are when the
  loop ends. A child whose key is of type \<open>Null\<close> is neither counted nor entered.
\<close>

function doCheckDupJSONKeys :: "range_order \<Rightarrow> Result \<Rightarrow> Result \<Rightarrow> error option"
  and forEachLoop ::
    "range_order \<Rightarrow> (Result \<times> Result) list \<Rightarrow> keysOcc \<Rightarrow> keysOcc \<times> error option"
where
  "doCheckDupJSONKeys ord key value =
     (case forEachLoop ord (ForEach value) [] of
        (keysOcc, Some checkErr) \<Rightarrow> Some (Result_String key @ '' => '' @ checkErr)
      | (keysOcc, None) \<Rightarrow> rangeDuplicated (Result_String key) (ord keysOcc))"
| "forEachLoop ord [] keysOcc = (keysOcc, None)"
| "forEachLoop ord ((k, v) # rest) keysOcc =
     (if Type k \<noteq> Null then
        (case doCheckDupJSONKeys ord k v of
           Some checkErr \<Rightarrow> (incr (Result_String k) keysOcc, Some checkErr)
         | None \<Rightarrow> forEachLoop ord rest (incr (Result_String k) keysOcc))
      else forEachLoop ord rest keysOcc)"
  by pat_completeness auto
termination
proof (relation "measure (\<lambda>x. case x of
          Inl (ord, key, value) \<Rightarrow> 2 * rsize value + 2
        | Inr (ord, pairs, keysOcc) \<Rightarrow> pairs_weight pairs)", goal_cases)
  case 1
  show ?case by simp
next
  case (2 ord key val)
  show ?case using pairs_weight_ForEach[of val] by simp
next
  case (3 ord k v rest keysOcc)
  then show ?case by simp
next
  case (4 ord k v rest keysOcc)
  then show ?case by simp
next
  case (5 ord k v rest keysOcc)
  then show ?case by simp
qed

declare doCheckDupJSONKeys.simps [simp del]

text \<open>
  \<open>checkDupJSONKeys\<close>. The constant \<open>minioConfigFile\<close>, the name given to the root, is
  declared outside src/ and is a parameter.
\<close>

definition checkDupJSONKeys :: "range_order \<Rightarrow> string \<Rightarrow> json \<Rightarrow> error option" where
  "checkDupJSONKeys ord minioConfigFile json =
     (let config = Parse json;
          rootKey = \<lparr>Type = String_t, Raw = None, Str = minioConfigFile\<rparr>
      in doCheckDupJSONKeys ord rootKey config)"

subsection \<open>The configuration snapshot\<close>

text \<open>
  The types \<open>credential\<close> and the notification targets (\<open>amqpNotify\<close> and the others) are
  declared outside src/: they are type parameters. \<open>logger\<close> and \<open>notifier\<close> are declared
  outside src/ too; the records below have the fields that \<open>newServerConfigV15\<close> writes.
  The fields \<open>Enable\<close> and \<open>Level\<close> of \<open>fileLogger\<close> carry the suffix \<open>_file\<close>.
  A Go map from names to targets is a map \<open>string \<rightharpoonup> 'a\<close>. \<open>Logger\<close> and \<open>Notify\<close> are pointers:
  \<open>None\<close> is \<open>nil\<close>. The zero value of a type that is a parameter is \<open>default\<close>.
\<close>

record consoleLogger =
  Enable :: bool
  Level :: string

record fileLogger =
  Enable_file :: bool
  Level_file :: string
  Filename :: string

record logger =
  Console :: consoleLogger
  File :: fileLogger

record ('amqp, 'es, 'redis, 'nats, 'pg, 'mysql, 'kafka, 'webhook) notifier =
  AMQP :: "string \<rightharpoonup> 'amqp"
  ElasticSearch :: "string \<rightharpoonup> 'es"
  Redis :: "string \<rightharpoonup> 'redis"
  NATS :: "string \<rightharpoonup> 'nats"
  PostgreSQL :: "string \<rightharpoonup> 'pg"
  MySQL :: "string \<rightharpoonup> 'mysql"
  Kafka :: "string \<rightharpoonup> 'kafka"
  Webhook :: "string \<rightharpoonup> 'webhook"

record ('cred, 'logger, 'notify) serverConfigV15 =
  Version :: string
  Credential :: 'cred
  Region :: string
  Browser :: string
  Logger :: "'logger option"
  Notify :: "'notify option"

definition v15 :: string where
  "v15 = ''15''"

text \<open>
  The accessors. Each takes \<open>serverConfigMu\<close> on entry and releases it on return, which
  changes nothing for one caller alone; the lock is not part of the state here.
  A setter has a pointer receiver and returns the snapshot as it has written it. A getter
  has a value receiver: it returns its result, and the snapshot as it is after the call.
\<close>

definition GetVersion ::
  "('c, 'l, 'n) serverConfigV15 \<Rightarrow> string \<times> ('c, 'l, 'n) serverConfigV15" where
  "GetVersion s = (Version s, s)"

definition SetRegion ::
  "string \<Rightarrow> ('c, 'l, 'n) serverConfigV15 \<Rightarrow> ('c, 'l, 'n) serverConfigV15" where
  "SetRegion region s =
     (let region = (if region = [] then ''us-east-1'' else region)
      in s\<lparr>Region := region\<rparr>)"

definition GetRegion ::
  "('c, 'l, 'n) serverConfigV15 \<Rightarrow> string \<times> ('c, 'l, 'n) serverConfigV15" where
  "GetRegion s = (if Region s \<noteq> [] then (Region s, s) else (''us-east-1'', s))"

definition SetCredential ::
  "'c \<Rightarrow> ('c, 'l, 'n) serverConfigV15 \<Rightarrow> ('c, 'l, 'n) serverConfigV15" where
  "SetCredential creds s = s\<lparr>Credential := creds\<rparr>"

definition GetCredential ::
  "('c, 'l, 'n) serverConfigV15 \<Rightarrow> 'c \<times> ('c, 'l, 'n) serverConfigV15" where
  "GetCredential s = (Credential s, s)"

definition SetBrowser ::
  "string \<Rightarrow> ('c, 'l, 'n) serverConfigV15 \<Rightarrow> ('c, 'l, 'n) serverConfigV15" where
  "SetBrowser v s =
     (let v = (if v = [] then ''on'' else v)
      in s\<lparr>Browser := v\<rparr>)"

definition GetBrowser ::
  "('c, 'l, 'n) serverConfigV15 \<Rightarrow> string \<times> ('c, 'l, 'n) serverConfigV15" where
  "GetBrowser s = (if Browser s \<noteq> [] then (Browser s, s) else (''on'', s))"

text \<open>
  \<open>newServerConfigV15\<close>. The constant \<open>globalMinioDefaultRegion\<close> is declared outside src/,
  and \<open>mustGetNewCredential\<close> draws a fresh credential: both are parameters.
\<close>

definition newServerConfigV15 ::
  "string \<Rightarrow> 'cred \<Rightarrow>
   ('cred::default, logger,
    ('amqp::default, 'es::default, 'redis::default, 'nats::default, 'pg::default,
     'mysql::default, 'kafka::default, 'webhook::default) notifier) serverConfigV15" where
  "newServerConfigV15 globalMinioDefaultRegion mustGetNewCredential =
     (let srvCfg = \<lparr>Version = v15, Credential = default,
            Region = globalMinioDefaultRegion, Browser = [],
            Logger = Some \<lparr>Console = \<lparr>Enable = False, Level = []\<rparr>,
                            File = \<lparr>Enable_file = False, Level_file = [], Filename = []\<rparr>\<rparr>,
            Notify = Some \<lparr>AMQP = Map.empty, ElasticSearch = Map.empty, Redis = Map.empty,
                            NATS = Map.empty, PostgreSQL = Map.empty, MySQL = Map.empty,
                            Kafka = Map.empty, Webhook = Map.empty\<rparr>\<rparr>;
          srvCfg = SetCredential mustGetNewCredential srvCfg;
          srvCfg = SetBrowser ''off'' srvCfg;
          srvCfg = srvCfg\<lparr>Logger := map_option
            (\<lambda>l. l\<lparr>Console := \<lparr>Enable = True, Level = ''error''\<rparr>\<rparr>) (Logger srvCfg)\<rparr>;
          srvCfg = srvCfg\<lparr>Logger := map_option
            (\<lambda>l. l\<lparr>File := \<lparr>Enable_file = True, Level_file = ''error'',
                               Filename = ''/var/log/px-obj.log''\<rparr>\<rparr>) (Logger srvCfg)\<rparr>;
          srvCfg = srvCfg\<lparr>Notify := map_option
            (\<lambda>n. n\<lparr>AMQP := [''1'' \<mapsto> default],
                   ElasticSearch := [''1'' \<mapsto> default],
                   Redis := [''1'' \<mapsto> default],
                   NATS := [''1'' \<mapsto> default],
                   PostgreSQL := [''1'' \<mapsto> default],
                   MySQL := [''1'' \<mapsto> default],
                   Kafka := [''1'' \<mapsto> default],
                   Webhook := [''1'' \<mapsto> default]\<rparr>) (Notify srvCfg)\<rparr>
      in srvCfg)"

subsection \<open>Loading and validating the configuration file\<close>

text \<open>
  The process-wide variables the two entry points read and write. \<open>serverConfig\<close> is a
  pointer, \<open>None\<close> before the first configuration is stored.
\<close>

record ('c, 'l, 'n) globals =
  serverConfig :: "('c, 'l, 'n) serverConfigV15 option"
  globalIsBrowserEnabled :: bool
  globalIsEnvCreds :: bool
  globalIsEnvBrowser :: bool

record 'c envParams =
  creds :: 'c
  browser :: string

text \<open>
  What the collaborators outside src/ answer for the configuration file: \<open>os.Stat\<close>,
  \<open>quick.New\<close>, \<open>qc.Load\<close> (an error, or the snapshot it has filled in) and
  \<open>ioutil.ReadFile\<close> (an error, or the bytes of the file, kept as the JSON document they
  spell).
\<close>

record ('c, 'l, 'n) configFile =
  osStat :: "error option"
  quickNew :: "error option"
  quickLoad :: "error + ('c, 'l, 'n) serverConfigV15"
  ReadFile :: "error + json"

text \<open>
  The validators outside src/: \<open>credential.IsValid\<close>, \<open>logger.Validate\<close> and
  \<open>notifier.Validate\<close>.
\<close>

record ('c, 'l, 'n) validators =
  IsValid :: "'c \<Rightarrow> bool"
  Logger_Validate :: "'l option \<Rightarrow> error option"
  Notify_Validate :: "'n option \<Rightarrow> error option"

text \<open>
  \<open>strings.ToLower\<close>, on the letters \<open>A\<close> to \<open>Z\<close>. Go also maps the upper-case letters
  beyond ASCII; none of them becomes a letter of \<open>on\<close> or \<open>off\<close>, the two words the result
  is compared with.
\<close>

definition toLowerChar :: "char \<Rightarrow> char" where
  "toLowerChar c =
     (let n = (of_char c :: nat)
      in if 65 \<le> n \<and> n \<le> 90 then char_of (n + 32) else c)"

definition ToLower :: "string \<Rightarrow> string" where
  "ToLower s = map toLowerChar s"

text \<open>
  \<open>loadConfig\<close>: the error it returns and the process-wide variables as it leaves them.
  The version is read from \<open>serverConfig\<close> after \<open>serverConfig = srvCfg\<close>: it is the version
  of \<open>srvCfg\<close>.
\<close>

definition loadConfig ::
  "'c envParams \<Rightarrow> ('c, 'l, 'n) configFile \<Rightarrow> ('c, 'l, 'n) globals \<Rightarrow>
   error option \<times> ('c, 'l, 'n) globals" where
  "loadConfig envParams w g =
     (case osStat w of
        Some err \<Rightarrow> (Some err, g)
      | None \<Rightarrow>
     (case quickNew w of
        Some err \<Rightarrow> (Some err, g)
      | None \<Rightarrow>
     (case quickLoad w of
        Inl err \<Rightarrow> (Some err, g)
      | Inr srvCfg \<Rightarrow>
          (let srvCfg = (if globalIsEnvCreds g
                         then SetCredential (creds envParams) srvCfg else srvCfg);
               srvCfg = (if globalIsEnvBrowser g
                         then SetBrowser (browser envParams) srvCfg else srvCfg);
               g = (if ToLower (fst (GetBrowser srvCfg)) = ''off''
                    then g\<lparr>globalIsBrowserEnabled := False\<rparr> else g);
               g = g\<lparr>serverConfig := Some srvCfg\<rparr>
           in if Version srvCfg \<noteq> v15
              then (Some (''Unsupported config version `'' @ Version srvCfg @ ''`.''), g)
              else (None, g)))))"

text \<open>
  \<open>validateConfig\<close>: the error it returns and, in order, the calls it has made. \<open>called c r\<close>
  puts the call \<open>c\<close> in front of the calls of what follows it. The order \<open>ord\<close> and the name
  \<open>minioConfigFile\<close> are the parameters of \<open>checkDupJSONKeys\<close>.
\<close>

datatype call =
    quick_New
  | quick_Load
  | Get_Version
  | ioutil_ReadFile
  | check_DupJSONKeys
  | Get_Region
  | Get_Browser
  | Credential_IsValid
  | Logger_Validate_call
  | Notify_Validate_call

definition called :: "call \<Rightarrow> error option \<times> call list \<Rightarrow> error option \<times> call list" where
  "called c r = (fst r, c # snd r)"

definition validateConfig ::
  "range_order \<Rightarrow> string \<Rightarrow> ('c, 'l, 'n) configFile \<Rightarrow> ('c, 'l, 'n) validators \<Rightarrow>
   error option \<times> call list" where
  "validateConfig ord minioConfigFile w vs =
     called quick_New (case quickNew w of
        Some err \<Rightarrow> (Some err, [])
      | None \<Rightarrow>
     called quick_Load (case quickLoad w of
        Inl err \<Rightarrow> (Some err, [])
      | Inr srvCfg \<Rightarrow>
     called Get_Version (
       if fst (GetVersion srvCfg) \<noteq> v15
       then (Some (''bad config version, expected: '' @ v15), [])
       else
     called ioutil_ReadFile (case ReadFile w of
        Inl err \<Rightarrow> (Some err, [])
      | Inr jsonBytes \<Rightarrow>
     called check_DupJSONKeys (case checkDupJSONKeys ord minioConfigFile jsonBytes of
        Some err \<Rightarrow> (Some err, [])
      | None \<Rightarrow>
     called Get_Region (
       if fst (GetRegion srvCfg) = []
       then (Some ''Region config value cannot be empty'', [])
       else
     called Get_Browser (
       let b = ToLower (fst (GetBrowser srvCfg))
       in if b \<noteq> ''on'' \<and> b \<noteq> ''off''
          then (Some (''Browser config value '' @ b @ '' is invalid''), [])
          else
     called Credential_IsValid (
       if \<not> IsValid vs (Credential srvCfg)
       then (Some ''invalid credential'', [])
       else
     called Logger_Validate_call (case Logger_Validate vs (Logger srvCfg) of
        Some err \<Rightarrow> (Some err, [])
      | None \<Rightarrow>
     called Notify_Validate_call (case Notify_Validate vs (Notify srvCfg) of
        Some err \<Rightarrow> (Some err, [])
      | None \<Rightarrow> (None, [])))))))))))"

subsection \<open>Object scopes of a document\<close>

text \<open>
  The words in which the properties of the scanner are stated. An object scope is one
  JSON object with its key names in document order.

  \<open>objectScopes key j\<close> lists every object scope of \<open>j\<close>, those inside arrays too, each with
  the key name that encloses it (\<open>key\<close> for \<open>j\<close> itself; an array passes the name on to its
  elements).

  \<open>keyedScopes j\<close> lists the object scopes of \<open>j\<close> that are reached through object members
  only, with no array on the way, each with the key names on the way to it.

  \<open>breadcrumb path d\<close> is the message for the key name \<open>d\<close> duplicated in the scope at the end
  of \<open>path\<close>.
\<close>

fun objectScopes :: "string \<Rightarrow> json \<Rightarrow> (string \<times> string list) list" where
  "objectScopes key (JObject kvs) =
     (key, map fst kvs) # concat (map (\<lambda>kv. objectScopes (fst kv) (snd kv)) kvs)"
| "objectScopes key (JArray vs) = concat (map (objectScopes key) vs)"
| "objectScopes key j = []"

fun keyedScopes :: "json \<Rightarrow> (string list \<times> string list) list" where
  "keyedScopes (JObject kvs) =
     ([], map fst kvs) #
     concat (map (\<lambda>kv. map (\<lambda>(p, ks). (fst kv # p, ks)) (keyedScopes (snd kv))) kvs)"
| "keyedScopes j = []"

definition scopesDistinct :: "json \<Rightarrow> bool" where
  "scopesDistinct j \<longleftrightarrow> (\<forall>(p, ks) \<in> set (keyedScopes j). distinct ks)"

definition breadcrumb :: "string list \<Rightarrow> string \<Rightarrow> string" where
  "breadcrumb path d =
     concat (map (\<lambda>k. k @ '' => '') path) @ ''`'' @ d @ ''` entry is duplicated''"

text \<open>The count of a key in \<open>keysOcc\<close>, 0 when the key is missing.\<close>

definition occOf :: "keysOcc \<Rightarrow> string \<Rightarrow> int" where
  "occOf m k = (case map_of m k of None \<Rightarrow> 0 | Some c \<Rightarrow> c)"

text \<open>The pair that \<open>ForEach\<close> passes for a member of an object.\<close>

abbreviation member :: "string \<times> json \<Rightarrow> Result \<times> Result" where
  "member \<equiv> \<lambda>(k, v). (keyResult k, Parse v)"

subsection \<open>Concrete inputs\<close>

text \<open>
  A snapshot with a given version and browser value, a configuration file that loads as a
  given snapshot, and the process-wide variables of a process that has stored no
  configuration yet and takes nothing from the environment.
\<close>

definition example_config :: "string \<Rightarrow> string \<Rightarrow> (unit, unit, unit) serverConfigV15" where
  "example_config version b =
     \<lparr>Version = version, Credential = (), Region = [], Browser = b,
      Logger = None, Notify = None\<rparr>"

definition example_file ::
  "(unit, unit, unit) serverConfigV15 \<Rightarrow> json \<Rightarrow> (unit, unit, unit) configFile" where
  "example_file cfg doc =
     \<lparr>osStat = None, quickNew = None, quickLoad = Inr cfg, ReadFile = Inr doc\<rparr>"

definition example_globals :: "bool \<Rightarrow> (unit, unit, unit) globals" where
  "example_globals enabled =
     \<lparr>serverConfig = None, globalIsBrowserEnabled = enabled,
      globalIsEnvCreds = False, globalIsEnvBrowser = False\<rparr>"

definition example_env :: "unit envParams" where
  "example_env = \<lparr>creds = (), browser = []\<rparr>"

definition example_validators :: "(unit, unit, unit) validators" where
  "example_validators =
     \<lparr>IsValid = (\<lambda>c. True), Logger_Validate = (\<lambda>l. None), Notify_Validate = (\<lambda>n. None)\<rparr>"

section \<open>Properties of the duplicate-key scanner\<close>

subsection \<open>Counting keys and reporting a count above 1\<close>

lemma breadcrumb_Cons: "key @ '' => '' @ breadcrumb p d = breadcrumb (key # p) d"
  by (simp add: breadcrumb_def)

lemma range_order_set: "range_order ord \<Longrightarrow> set (ord m) = set m"
  by (metis range_order_def set_mset_mset)

lemma rangeDuplicated_None:
  "rangeDuplicated key m = None \<longleftrightarrow> (\<forall>(k, v) \<in> set m. v \<le> 1)"
  by (induction m) (auto split: if_splits)

lemma rangeDuplicated_Some:
  "rangeDuplicated key m = Some e \<Longrightarrow>
     \<exists>(k, v) \<in> set m. 1 < v \<and> e = breadcrumb [key] k"
  by (induction m) (auto simp: breadcrumb_def split: if_splits)

lemma distinct_incr: "distinct (map fst m) \<Longrightarrow> distinct (map fst (incr k m))"
  by (simp add: incr_def distinct_update)

lemma map_of_incr: "map_of (incr k m) = (map_of m)(k \<mapsto> occOf m k + 1)"
  by (simp add: incr_def update_conv' occOf_def split: option.splits)

lemma distinct_fold_incr:
  "distinct (map fst m) \<Longrightarrow> distinct (map fst (fold incr ks m))"
  by (induction ks arbitrary: m) (simp_all add: distinct_incr)

lemma map_of_fold_incr:
  "map_of (fold incr ks m) k =
     (if k \<in> set ks then Some (occOf m k + int (count_list ks k)) else map_of m k)"
proof (induction ks arbitrary: m)
  case Nil
  show ?case by simp
next
  case (Cons x xs)
  show ?case
    by (simp add: Cons.IH map_of_incr occOf_def)
qed

lemma set_fold_incr:
  "set (fold incr ks []) = (\<lambda>k. (k, int (count_list ks k))) ` set ks"
proof -
  have d: "distinct (map fst (fold incr ks []))"
    by (rule distinct_fold_incr) simp
  have "(k, v) \<in> set (fold incr ks []) \<longleftrightarrow> k \<in> set ks \<and> v = int (count_list ks k)" for k v
    using map_of_eq_Some_iff[OF d, of k v]
    by (auto simp: map_of_fold_incr occOf_def split: if_splits)
  then show ?thesis by auto
qed


lemma distinct_count_list:
  "distinct ks \<longleftrightarrow> (\<forall>x \<in> set ks. count_list ks x = 1)"
  by (auto simp: distinct_count_atmost_1 count_mset)

lemma rangeDuplicated_counted_None:
  assumes "range_order ord" and "distinct ks"
  shows "rangeDuplicated key (ord (fold incr ks [])) = None"
  using assms
  by (auto simp: rangeDuplicated_None range_order_set set_fold_incr distinct_count_list)

lemma rangeDuplicated_counted_Some:
  assumes "range_order ord" and "\<not> distinct ks"
  shows "\<exists>d. 1 < count_list ks d \<and>
           rangeDuplicated key (ord (fold incr ks [])) = Some (breadcrumb [key] d)"
proof -
  from assms(2) obtain x where x: "x \<in> set ks" "count_list ks x \<noteq> 1"
    by (auto simp: distinct_count_list)
  then have "1 < count_list ks x"
    using count_list_0_iff[of ks x] by arith
  with x have "(x, int (count_list ks x)) \<in> set (ord (fold incr ks []))"
    "\<not> int (count_list ks x) \<le> 1"
    using assms(1) by (auto simp: range_order_set set_fold_incr)
  then have "rangeDuplicated key (ord (fold incr ks [])) \<noteq> None"
    unfolding rangeDuplicated_None by blast
  then obtain e where e: "rangeDuplicated key (ord (fold incr ks [])) = Some e"
    by auto
  from rangeDuplicated_Some[OF e] obtain k v where
    "(k, v) \<in> set (ord (fold incr ks []))" "1 < v" "e = breadcrumb [key] k"
    by auto
  with assms(1) e show ?thesis
    by (auto simp: range_order_set set_fold_incr)
qed

text \<open>The loop over children without a name: nothing is counted, nothing is entered.\<close>

lemma forEachLoop_unnamed:
  "\<forall>(k, v) \<in> set ps. Type k = Null \<Longrightarrow> forEachLoop ord ps occ = (occ, None)"
  by (induction ps) auto

lemma forEachLoop_members_None:
  "\<forall>(k, v) \<in> set kvs. doCheckDupJSONKeys ord (keyResult k) (Parse v) = None \<Longrightarrow>
     forEachLoop ord (map member kvs) occ = (fold incr (map fst kvs) occ, None)"
  by (induction kvs arbitrary: occ) (auto simp: keyResult_def Result_String_def)

lemma forEachLoop_members_Some:
  "\<forall>(k, v) \<in> set pre. doCheckDupJSONKeys ord (keyResult k) (Parse v) = None \<Longrightarrow>
   doCheckDupJSONKeys ord (keyResult k) (Parse v) = Some e \<Longrightarrow>
     snd (forEachLoop ord (map member (pre @ (k, v) # post)) occ) = Some e"
  by (induction pre arbitrary: occ) (auto simp: keyResult_def Result_String_def)


lemma range_order_Nil: "range_order ord \<Longrightarrow> ord [] = []"
  by (metis range_order_def mset_zero_iff)

lemma ForEach_object: "ForEach (Parse (JObject kvs)) = map member kvs"
  by (simp add: ForEach_def Exists_def)

lemma doCheckDupJSONKeys_loop_None:
  "forEachLoop ord (ForEach val) [] = (occ, None) \<Longrightarrow>
     doCheckDupJSONKeys ord key val = rangeDuplicated (Result_String key) (ord occ)"
  by (simp add: doCheckDupJSONKeys.simps)

lemma doCheckDupJSONKeys_loop_Some:
  "snd (forEachLoop ord (ForEach val) []) = Some e \<Longrightarrow>
     doCheckDupJSONKeys ord key val = Some (Result_String key @ '' => '' @ e)"
  by (cases "forEachLoop ord (ForEach val) []") (simp add: doCheckDupJSONKeys.simps)

lemma doCheckDupJSONKeys_no_object:
  assumes "range_order ord" and "\<And>kvs. j \<noteq> JObject kvs"
  shows "doCheckDupJSONKeys ord key (Parse j) = None"
proof -
  have "\<forall>(k, v) \<in> set (ForEach (Parse j)). Type k = Null"
    using assms(2) by (cases j) (auto simp: ForEach_def Exists_def Result_zero_def)
  then have "forEachLoop ord (ForEach (Parse j)) [] = ([], None)"
    by (rule forEachLoop_unnamed)
  from doCheckDupJSONKeys_loop_None[OF this, of key] show ?thesis
    by (simp add: range_order_Nil[OF assms(1)])
qed

lemma count_list_not_distinct: "1 < count_list ks d \<Longrightarrow> \<not> distinct ks"
  using count_list_0_iff[of ks d] by (force simp: distinct_count_list)

lemma doCheckDupJSONKeys_scopes:
  assumes ord: "range_order ord"
  shows "(scopesDistinct j \<longrightarrow> doCheckDupJSONKeys ord key (Parse j) = None) \<and>
         (\<not> scopesDistinct j \<longrightarrow>
            (\<exists>(p, ks) \<in> set (keyedScopes j). \<exists>d. 1 < count_list ks d \<and>
               doCheckDupJSONKeys ord key (Parse j) =
                 Some (breadcrumb (Result_String key # p) d)))"
proof (induction j arbitrary: key)
  case (JObject kvs)
  have ih: "(scopesDistinct v \<longrightarrow> doCheckDupJSONKeys ord key' (Parse v) = None) \<and>
         (\<not> scopesDistinct v \<longrightarrow>
            (\<exists>(p, ks) \<in> set (keyedScopes v). \<exists>d. 1 < count_list ks d \<and>
               doCheckDupJSONKeys ord key' (Parse v) =
                 Some (breadcrumb (Result_String key' # p) d)))"
    if "(k, v) \<in> set kvs" for k v key'
    using JObject.IH[of "(k, v)" v key'] that by simp
  let ?name = "Result_String key"
  show ?case
  proof (cases "\<forall>(k, v) \<in> set kvs. doCheckDupJSONKeys ord (keyResult k) (Parse v) = None")
    case True
    then have "forEachLoop ord (map member kvs) [] = (fold incr (map fst kvs) [], None)"
      by (rule forEachLoop_members_None)
    then have res: "doCheckDupJSONKeys ord key (Parse (JObject kvs)) =
        rangeDuplicated ?name (ord (fold incr (map fst kvs) []))"
      by (intro doCheckDupJSONKeys_loop_None) (simp only: ForEach_object)
    have children: "scopesDistinct v" if "(k, v) \<in> set kvs" for k v
      using ih[OF that, of "keyResult k"] True that by fastforce
    have iff: "scopesDistinct (JObject kvs) \<longleftrightarrow> distinct (map fst kvs)"
      using children by (fastforce simp: scopesDistinct_def)
    show ?thesis
    proof (cases "distinct (map fst kvs)")
      case True
      with iff res rangeDuplicated_counted_None[OF ord True] show ?thesis by simp
    next
      case False
      from rangeDuplicated_counted_Some[OF ord False, of ?name]
      obtain d where "1 < count_list (map fst kvs) d"
        "rangeDuplicated ?name (ord (fold incr (map fst kvs) [])) = Some (breadcrumb [?name] d)"
        by blast
      with res have "\<exists>(p, ks) \<in> set (keyedScopes (JObject kvs)). \<exists>d. 1 < count_list ks d \<and>
               doCheckDupJSONKeys ord key (Parse (JObject kvs)) =
                 Some (breadcrumb (?name # p) d)"
        by (intro bexI[of _ "([], map fst kvs)"]) auto
      with iff False show ?thesis by simp
    qed
  next
    case False
    then have "\<exists>kv \<in> set kvs.
        doCheckDupJSONKeys ord (keyResult (fst kv)) (Parse (snd kv)) \<noteq> None"
      by force
    from split_list_first_prop[OF this] obtain pre kv post where
      split: "kvs = pre @ kv # post"
      and bad: "doCheckDupJSONKeys ord (keyResult (fst kv)) (Parse (snd kv)) \<noteq> None"
      and good: "\<forall>y \<in> set pre.
        \<not> doCheckDupJSONKeys ord (keyResult (fst y)) (Parse (snd y)) \<noteq> None"
      by blast
    obtain k v where kv: "kv = (k, v)" by (cases kv)
    from bad kv obtain e where
      e: "doCheckDupJSONKeys ord (keyResult k) (Parse v) = Some e" by auto
    have mem: "(k, v) \<in> set kvs" using split kv by simp
    from good have pre: "\<forall>(k, v) \<in> set pre.
        doCheckDupJSONKeys ord (keyResult k) (Parse v) = None"
      by auto
    have "snd (forEachLoop ord (map member (pre @ (k, v) # post)) []) = Some e"
      using pre e by (rule forEachLoop_members_Some)
    then have res: "doCheckDupJSONKeys ord key (Parse (JObject kvs)) =
        Some (?name @ '' => '' @ e)"
      using split kv
      by (intro doCheckDupJSONKeys_loop_Some) (simp only: ForEach_object)
    from ih[OF mem, of "keyResult k"] e obtain p ks d where
      in_child: "(p, ks) \<in> set (keyedScopes v)" and count: "1 < count_list ks d"
      and e_eq: "e = breadcrumb (k # p) d"
      by (cases "scopesDistinct v") (auto simp: keyResult_def Result_String_def)
    have in_obj: "(k # p, ks) \<in> set (keyedScopes (JObject kvs))"
      using mem in_child by force
    have "\<not> scopesDistinct (JObject kvs)"
      using in_obj count_list_not_distinct[OF count]
      unfolding scopesDistinct_def by blast
    moreover have "doCheckDupJSONKeys ord key (Parse (JObject kvs)) =
        Some (breadcrumb (?name # k # p) d)"
      using res e_eq by (simp only: breadcrumb_Cons)
    ultimately show ?thesis
      using in_obj count by blast
  qed
qed (simp_all add: doCheckDupJSONKeys_no_object[OF ord] scopesDistinct_def del: Parse.simps)


lemma keyedScopes_objectScopes:
  "(p, ks) \<in> set (keyedScopes j) \<Longrightarrow> (last (key # p), ks) \<in> set (objectScopes key j)"
proof (induction j arbitrary: key p)
  case (JObject kvs)
  show ?case
  proof (cases p)
    case Nil
    with JObject.prems show ?thesis by auto
  next
    case (Cons k p')
    with JObject.prems obtain v where v: "(k, v) \<in> set kvs" "(p', ks) \<in> set (keyedScopes v)"
      by auto
    from JObject.IH[of "(k, v)" v p' k] v
    have "(last (k # p'), ks) \<in> set (objectScopes k v)" by simp
    with v(1) Cons show ?thesis by force
  qed
qed simp_all

subsection \<open>The scanner on a document\<close>

text \<open>
  C3. For a document with no repeated key within any single object scope,
  \<open>checkDupJSONKeys\<close> returns success, whatever order \<open>range\<close> takes. The same key name in
  two different scopes is not a duplicate: each call of \<open>doCheckDupJSONKeys\<close> starts from an
  empty \<open>keysOcc\<close>. The witness is a document with the key \<open>1\<close> in two sibling objects.
\<close>

theorem checkDupJSONKeys_no_duplicate:
  assumes "range_order ord"
    and "\<forall>(key, ks) \<in> set (objectScopes minioConfigFile json). distinct ks"
  shows "checkDupJSONKeys ord minioConfigFile json = None"
proof -
  have "scopesDistinct json"
    unfolding scopesDistinct_def
    using assms(2) keyedScopes_objectScopes[of _ _ json minioConfigFile] by blast
  with doCheckDupJSONKeys_scopes[OF assms(1), of json] show ?thesis
    by (simp add: checkDupJSONKeys_def)
qed

theorem checkDupJSONKeys_no_duplicate_witness:
  "checkDupJSONKeys id ''config.json''
     (JObject [(''notify'', JObject [(''amqp'', JObject [(''1'', JObject [])]),
                                     (''redis'', JObject [(''1'', JObject [])])])]) = None"
  using checkDupJSONKeys_no_duplicate [of id "''config.json''"
     "JObject [(''notify'', JObject [(''amqp'', JObject [(''1'', JObject [])]),
                                     (''redis'', JObject [(''1'', JObject [])])])]"]
  by (simp add: range_order_def)

text \<open>
  What the scanner does report. When an object scope reached through object members only
  has a repeated key name, \<open>checkDupJSONKeys\<close> returns a failure, whatever order \<open>range\<close>
  takes, and the message is the breadcrumb of such a scope: the name of the root and the
  key names on the way to the scope, the last of them the key name that encloses it, each
  followed by \<open>=>\<close>, and then a key name that is repeated in that scope.
\<close>

theorem checkDupJSONKeys_reports_duplicate:
  assumes "range_order ord" and "(p, ks) \<in> set (keyedScopes json)" and "\<not> distinct ks"
  shows "\<exists>(p', ks') \<in> set (keyedScopes json). \<exists>d. 1 < count_list ks' d \<and>
           checkDupJSONKeys ord minioConfigFile json =
             Some (breadcrumb (minioConfigFile # p') d)"
proof -
  have "\<not> scopesDistinct json"
    unfolding scopesDistinct_def using assms(2,3) by blast
  with doCheckDupJSONKeys_scopes[OF assms(1), of json
      "\<lparr>Type = String_t, Raw = None, Str = minioConfigFile\<rparr>"]
  show ?thesis
    by (simp add: checkDupJSONKeys_def Result_String_def)
qed

theorem checkDupJSONKeys_reports_duplicate_witness:
  "checkDupJSONKeys id ''config.json''
     (JObject [(''a'', JObject [(''b'', JNumber ''1'')]),
               (''a'', JObject [(''b'', JNumber ''2'')])]) =
     Some ''config.json => `a` entry is duplicated''"
  using checkDupJSONKeys_reports_duplicate [of id "[]" "[''a'', ''a'']"
     "JObject [(''a'', JObject [(''b'', JNumber ''1'')]),
               (''a'', JObject [(''b'', JNumber ''2'')])]" "''config.json''"]
  by (auto simp: range_order_def breadcrumb_def split: if_splits)

text \<open>
  C1. A document with an object scope that repeats a key name should make
  \<open>checkDupJSONKeys\<close> fail wherever the scope sits, also inside an array; the comment on
  \<open>checkDupJSONKeys\<close> says that it checks recursively whether a key is duplicated in the
  same JSON scope. The code misses the scopes inside arrays. In the document
  \<open>{"a":[{"b":1,"b":2}]}\<close> the object under the key \<open>a\<close> has the key \<open>b\<close> twice, and
  \<open>checkDupJSONKeys\<close> returns success: the elements of an array come with a key of type
  \<open>Null\<close>, and \<open>doCheckDupJSONKeys\<close> neither counts nor enters a child whose key is of type
  \<open>Null\<close>.
\<close>

theorem checkDupJSONKeys_accepts_duplicate_in_array:
  "(''a'', [''b'', ''b'']) \<in> set (objectScopes ''config.json''
      (JObject [(''a'', JArray [JObject [(''b'', JNumber ''1''), (''b'', JNumber ''2'')]])])) \<and>
   \<not> distinct [''b'', ''b''] \<and>
   checkDupJSONKeys id ''config.json''
      (JObject [(''a'', JArray [JObject [(''b'', JNumber ''1''), (''b'', JNumber ''2'')]])]) = None"
  by (simp add: checkDupJSONKeys_def doCheckDupJSONKeys.simps ForEach_def Exists_def
      keyResult_def Result_zero_def Result_String_def incr_def)

section \<open>Properties of the accessors\<close>

text \<open>
  C7. \<open>SetRegion("")\<close> followed by \<open>GetRegion()\<close> returns the fallback \<open>us-east-1\<close>, and
  \<open>SetRegion(r)\<close> for a non-empty \<open>r\<close> followed by \<open>GetRegion()\<close> returns \<open>r\<close> unchanged.
\<close>

theorem SetRegion_then_GetRegion:
  "fst (GetRegion (SetRegion [] s)) = ''us-east-1'' \<and>
   (r \<noteq> [] \<longrightarrow> fst (GetRegion (SetRegion r s)) = r)"
  by (simp add: GetRegion_def SetRegion_def)

theorem SetRegion_then_GetRegion_witness:
  "fst (GetRegion (SetRegion ''eu-west-1'' (example_config ''15'' ''on''))) = ''eu-west-1''"
  using SetRegion_then_GetRegion [of "example_config ''15'' ''on''" "''eu-west-1''"]
  by simp

text \<open>
  C8. \<open>SetBrowser("")\<close> followed by \<open>GetBrowser()\<close> returns \<open>on\<close>, and \<open>SetBrowser(v)\<close> for a
  non-empty \<open>v\<close> followed by \<open>GetBrowser()\<close> returns \<open>v\<close> unchanged, whatever \<open>v\<close> is (also a
  value that validation refuses).
\<close>

theorem SetBrowser_then_GetBrowser:
  "fst (GetBrowser (SetBrowser [] s)) = ''on'' \<and>
   (v \<noteq> [] \<longrightarrow> fst (GetBrowser (SetBrowser v s)) = v)"
  by (simp add: GetBrowser_def SetBrowser_def)

theorem SetBrowser_then_GetBrowser_witness:
  "fst (GetBrowser (SetBrowser ''maybe'' (example_config ''15'' ''on''))) = ''maybe''"
  using SetBrowser_then_GetBrowser [of "example_config ''15'' ''on''" "''maybe''"]
  by simp

text \<open>
  C9. \<open>GetRegion\<close> does not change the snapshot: the snapshot after the call is the snapshot
  before it, field by field. It never returns the empty string, and when the stored
  \<open>Region\<close> is empty it returns \<open>us-east-1\<close> while the stored \<open>Region\<close> stays empty.
\<close>

theorem GetRegion_leaves_snapshot:
  "snd (GetRegion s) = s \<and> fst (GetRegion s) \<noteq> [] \<and>
   (Region s = [] \<longrightarrow>
      fst (GetRegion s) = ''us-east-1'' \<and> Region (snd (GetRegion s)) = [])"
  by (simp add: GetRegion_def)

theorem GetRegion_leaves_snapshot_witness:
  "fst (GetRegion (example_config ''15'' ''on'')) = ''us-east-1'' \<and>
   Region (snd (GetRegion (example_config ''15'' ''on''))) = []"
  using GetRegion_leaves_snapshot [of "example_config ''15'' ''on''"]
  by (simp add: example_config_def)

text \<open>
  C10. The snapshot that \<open>newServerConfigV15\<close> builds has its browser field set to \<open>off\<close>,
  so \<open>GetBrowser\<close> on it returns \<open>off\<close>, although \<open>GetBrowser\<close> on a snapshot with an empty
  browser field returns \<open>on\<close>.
\<close>

theorem newServerConfigV15_browser_off:
  "Browser (newServerConfigV15 region cred) = ''off'' \<and>
   fst (GetBrowser (newServerConfigV15 region cred)) = ''off'' \<and>
   fst (GetBrowser (s\<lparr>Browser := []\<rparr>)) = ''on''"
  by (simp add: newServerConfigV15_def GetBrowser_def SetBrowser_def SetCredential_def Let_def)

section \<open>Properties of \<open>loadConfig\<close> and \<open>validateConfig\<close>\<close>

text \<open>
  C2. When the file is there and loads as a snapshot whose version is not \<open>15\<close>,
  \<open>loadConfig\<close> returns the error \<open>Unsupported config version\<close>, and \<open>serverConfig\<close> holds
  the loaded snapshot (with the overrides from the environment) when it returns: the
  snapshot has been stored and is not taken back.
\<close>

theorem loadConfig_version_mismatch_stays_published:
  assumes "osStat w = None" and "quickNew w = None" and "quickLoad w = Inr cfg"
    and "Version cfg \<noteq> v15"
  shows "fst (loadConfig envParams w g) =
           Some (''Unsupported config version `'' @ Version cfg @ ''`.'') \<and>
         serverConfig (snd (loadConfig envParams w g)) =
           Some ((if globalIsEnvBrowser g then SetBrowser (browser envParams) else id)
                  ((if globalIsEnvCreds g then SetCredential (creds envParams) else id) cfg))"
  using assms by (simp add: loadConfig_def Let_def SetBrowser_def SetCredential_def)

theorem loadConfig_version_mismatch_stays_published_witness:
  "fst (loadConfig example_env (example_file (example_config ''14'' ''on'') JNull)
          (example_globals True)) = Some ''Unsupported config version `14`.'' \<and>
   serverConfig (snd (loadConfig example_env (example_file (example_config ''14'' ''on'') JNull)
          (example_globals True))) = Some (example_config ''14'' ''on'')"
  using loadConfig_version_mismatch_stays_published
    [of "example_file (example_config ''14'' ''on'') JNull" "example_config ''14'' ''on''"
        example_env "example_globals True"]
  by (simp add: example_file_def example_config_def example_globals_def v15_def)

text \<open>
  C4. On a file that loads as a snapshot whose version is not \<open>15\<close>, \<open>validateConfig\<close>
  returns the error \<open>bad config version, expected: 15\<close> after the calls \<open>quick.New\<close>,
  \<open>qc.Load\<close> and \<open>GetVersion\<close> and no other: it does not read the file for the scanner, does
  not run the scanner, and evaluates none of the checks of the region, the browser, the
  credential, the logger and the notifier.
\<close>

theorem validateConfig_bad_version_stops:
  assumes "quickNew w = None" and "quickLoad w = Inr cfg" and "Version cfg \<noteq> v15"
  shows "validateConfig ord minioConfigFile w vs =
           (Some ''bad config version, expected: 15'', [quick_New, quick_Load, Get_Version])"
  using assms by (simp add: validateConfig_def called_def GetVersion_def v15_def)

theorem validateConfig_bad_version_stops_witness:
  "validateConfig id ''config.json'' (example_file (example_config ''14'' ''on'') JNull)
     example_validators =
     (Some ''bad config version, expected: 15'', [quick_New, quick_Load, Get_Version])"
  using validateConfig_bad_version_stops
    [of "example_file (example_config ''14'' ''on'') JNull" "example_config ''14'' ''on''"
        id "''config.json''" example_validators]
  by (simp add: example_file_def example_config_def v15_def)

text \<open>
  C6, as the code has it. \<open>loadConfig\<close> only ever clears \<open>globalIsBrowserEnabled\<close>: after a
  successful \<open>loadConfig\<close> the flag is false if and only if it was false before the call or
  the browser value of the stored snapshot, as \<open>GetBrowser\<close> reads it, is \<open>off\<close> in lower
  case.
\<close>

theorem loadConfig_browser_flag:
  assumes "loadConfig envParams w g = (None, g')"
  shows "\<exists>srvCfg. serverConfig g' = Some srvCfg \<and>
           (\<not> globalIsBrowserEnabled g' \<longleftrightarrow>
              \<not> globalIsBrowserEnabled g \<or> ToLower (fst (GetBrowser srvCfg)) = ''off'')"
  using assms
  by (auto simp: loadConfig_def Let_def split: option.splits sum.splits if_splits)

theorem loadConfig_browser_flag_witness:
  "loadConfig example_env (example_file (example_config ''15'' ''off'') JNull)
     (example_globals True) =
     (None, (example_globals True)
        \<lparr>serverConfig := Some (example_config ''15'' ''off''),
         globalIsBrowserEnabled := False\<rparr>) \<and>
   ToLower (fst (GetBrowser (example_config ''15'' ''off''))) = ''off''"
proof -
  let ?g' = "(example_globals True)
        \<lparr>serverConfig := Some (example_config ''15'' ''off''),
         globalIsBrowserEnabled := False\<rparr>"
  have run: "loadConfig example_env (example_file (example_config ''15'' ''off'') JNull)
     (example_globals True) = (None, ?g')"
    by (simp add: loadConfig_def example_file_def example_config_def example_globals_def
        example_env_def GetBrowser_def ToLower_def toLowerChar_def v15_def)
  from loadConfig_browser_flag [OF run]
  have "ToLower (fst (GetBrowser (example_config ''15'' ''off''))) = ''off''"
    by (simp add: example_globals_def)
  with run show ?thesis by simp
qed

text \<open>
  C6, as the claim states it, fails: a first \<open>loadConfig\<close> of a file whose browser value is
  \<open>off\<close> clears the flag, and a second, successful \<open>loadConfig\<close> of a file whose browser
  value is \<open>on\<close> leaves it cleared.
\<close>

theorem loadConfig_browser_flag_counterexample:
  "fst (loadConfig example_env (example_file (example_config ''15'' ''on'') JNull)
     (snd (loadConfig example_env (example_file (example_config ''15'' ''off'') JNull)
        (example_globals True)))) = None \<and>
   serverConfig (snd (loadConfig example_env (example_file (example_config ''15'' ''on'') JNull)
     (snd (loadConfig example_env (example_file (example_config ''15'' ''off'') JNull)
        (example_globals True))))) = Some (example_config ''15'' ''on'') \<and>
   ToLower (fst (GetBrowser (example_config ''15'' ''on''))) \<noteq> ''off'' \<and>
   \<not> globalIsBrowserEnabled
     (snd (loadConfig example_env (example_file (example_config ''15'' ''on'') JNull)
       (snd (loadConfig example_env (example_file (example_config ''15'' ''off'') JNull)
          (example_globals True)))))"
  by (simp add: loadConfig_def example_file_def example_config_def example_globals_def
      example_env_def GetBrowser_def ToLower_def toLowerChar_def v15_def)

end
